theory Spec2Isabelle
  imports Complex_Main "HOL-Library.Log_Nat"
begin

section \<open>The 1D diffusion operator and its spectrum report\<close>

text \<open>
  A shallow embedding of \<^verbatim>\<open>src/03_eigenvalue_solver_demo.py\<close>: the assembly of the
  finite-difference operator (\<^verbatim>\<open>build_1d_operator\<close>), the wrapper around the
  iterative eigenvalue solver (\<^verbatim>\<open>run_arnoldi_solver\<close>) and the reporting loop
  of the script's main block.

  Python integers are \<^typ>\<open>int\<close>. Python floats and the entries of the matrix are
  IEEE 754 double-precision numbers, modelled by their values: division and
  multiplication round to nearest, ties to even, and overflow to an infinity; the two
  zeros are identified, since no operation of the modelled code tells them apart
  (division by either raises, comparison treats them as equal). The sparse CSR matrix
  is modelled by its dense rows, since every property below is about entries.
\<close>

subsection \<open>Errors\<close>

text \<open>
  The exceptions that the modelled code can meet. \<open>SolverError\<close> stands for any
  exception raised inside \<^verbatim>\<open>scipy.sparse.linalg.eigs\<close> (ARPACK's failure to
  converge among them), with its message.
\<close>

datatype error = ZeroDivisionError | ValueError | IndexError | OverflowError | MemoryError
  | SolverError string

definition and_then :: "error + 'a \<Rightarrow> ('a \<Rightarrow> error + 'b) \<Rightarrow> error + 'b" where
  \<comment> \<open>Sequencing of two statements: an exception in the first skips the second.\<close>
  "and_then r f = (case r of Inl e \<Rightarrow> Inl e | Inr x \<Rightarrow> f x)"

definition py_index :: "nat \<Rightarrow> int \<Rightarrow> error + nat" where
  \<comment> \<open>Resolving an index against an axis of length \<open>n\<close>: negative indices count from the end.\<close>
  "py_index n i =
     (let j = (if i < 0 then int n + i else i)
      in if 0 \<le> j \<and> j < int n then Inr (nat j) else Inl IndexError)"

subsection \<open>Double-precision numbers\<close>

text \<open>
  A double is a finite value, an infinity or NaN. The finite doubles are the
  multiples \<^verbatim>\<open>m * 2^s\<close> of \<^verbatim>\<open>2^-1074\<close>, the smallest positive double, with
  \<^verbatim>\<open>m < 2^53\<close>, below \<^verbatim>\<open>2^1024\<close> in magnitude (\<open>representable\<close> below). Every
  operation returns such a value; the type itself also holds the finite values in
  between, and what is proved for every argument is proved for the doubles among them.
\<close>

datatype double = Finite rat | PosInf | NegInf | NaN

instantiation double :: "{zero, one}"
begin

definition zero_double :: double where
  "zero_double = Finite 0"

definition one_double :: double where
  "one_double = Finite 1"

instance ..

end

definition round_half_even :: "rat \<Rightarrow> int" where
  \<comment> \<open>The nearest integer, the even one of the two when they are equally near.\<close>
  "round_half_even q =
     (let f = \<lfloor>q\<rfloor>; d = q - of_int f
      in if d < 1 / 2 then f else if 1 / 2 < d then f + 1 else if even f then f else f + 1)"

definition round_double :: "rat \<Rightarrow> double" where
  \<comment> \<open>The double nearest to the exact result \<open>r\<close>. \<open>R\<close> is the magnitude in units of
      \<^verbatim>\<open>2^-1074\<close>, \<open>s\<close> the number of low bits that do not fit into 53 bits, and
      \<open>V\<close> the rounded magnitude in the same units.\<close>
  "round_double r =
     (let R = \<bar>r\<bar> * 2 ^ 1074;
          s = nat (bitlen \<lfloor>R\<rfloor> - 53);
          V = round_half_even (R / 2 ^ s) * 2 ^ s
      in if 2 ^ 2098 \<le> V then (if r < 0 then NegInf else PosInf)
         else Finite (sgn r * of_int V / 2 ^ 1074))"

definition representable :: "rat \<Rightarrow> bool" where
  \<comment> \<open>The values of the finite doubles.\<close>
  "representable v =
     (let R = \<bar>v\<bar> * 2 ^ 1074
      in of_int \<lfloor>R\<rfloor> = R \<and> \<lfloor>R\<rfloor> < 2 ^ 2098 \<and> 2 ^ nat (bitlen \<lfloor>R\<rfloor> - 53) dvd \<lfloor>R\<rfloor>)"

definition is_neg :: "double \<Rightarrow> bool" where
  "is_neg x = (case x of Finite a \<Rightarrow> a < 0 | NegInf \<Rightarrow> True | _ \<Rightarrow> False)"

definition signed_inf :: "bool \<Rightarrow> double" where
  "signed_inf neg = (if neg then NegInf else PosInf)"

definition fmul :: "double \<Rightarrow> double \<Rightarrow> double" where
  \<comment> \<open>The product of two doubles.\<close>
  "fmul x y =
     (if x = NaN \<or> y = NaN then NaN
      else case (x, y) of
             (Finite a, Finite b) \<Rightarrow> round_double (a * b)
           | _ \<Rightarrow> if x = 0 \<or> y = 0 then NaN else signed_inf (is_neg x \<noteq> is_neg y))"

definition fdiv :: "double \<Rightarrow> double \<Rightarrow> double" where
  \<comment> \<open>The quotient of two doubles, for a divisor that is not zero.\<close>
  "fdiv x y =
     (if x = NaN \<or> y = NaN then NaN
      else case (x, y) of
             (Finite a, Finite b) \<Rightarrow> round_double (a / b)
           | (Finite a, _) \<Rightarrow> 0
           | (_, Finite b) \<Rightarrow> signed_inf (is_neg x \<noteq> is_neg y)
           | _ \<Rightarrow> NaN)"

definition float_of_int :: "int \<Rightarrow> error + double" where
  \<comment> \<open>The conversion of a Python integer that meets a float in an arithmetic operation.\<close>
  "float_of_int n =
     (case round_double (of_int n) of
        Finite v \<Rightarrow> Inr (Finite v)
      | _ \<Rightarrow> Inl OverflowError)"

definition py_div :: "double \<Rightarrow> double \<Rightarrow> error + double" where
  \<comment> \<open>Python's \<^verbatim>\<open>a / b\<close> on floats.\<close>
  "py_div a b = (if b = 0 then Inl ZeroDivisionError else Inr (fdiv a b))"

text \<open>
  Two things are left to the platform and are parameters of the model: the sizes
  for which numpy refuses to make an array (with the exception it raises: a size out
  of range, or memory that is not there), and the C library's \<^verbatim>\<open>pow(x, 2.0)\<close> for a
  finite \<open>x > 0\<close>, which returns a double and sets \<^verbatim>\<open>errno\<close>; it need not be
  correctly rounded. Memory that runs out after the two arrays of ones have been made
  is not modelled.
\<close>

datatype errno = ENONE | EDOM | ERANGE

record platform =
  np_refuses :: "int \<Rightarrow> error option"
  libm_pow2 :: "rat \<Rightarrow> double \<times> errno"

definition py_pow2 :: "platform \<Rightarrow> double \<Rightarrow> error + double" where
  \<comment> \<open>Python's \<^verbatim>\<open>x ** 2\<close> on a float: the interpreter settles NaN, the infinities,
      zero and one by itself and calls the C library for the magnitude otherwise; a
      result that overflows is an \<^verbatim>\<open>OverflowError\<close>, one that underflows to zero is not
      an error.\<close>
  "py_pow2 P x =
     (case x of
        NaN \<Rightarrow> Inr NaN
      | PosInf \<Rightarrow> Inr PosInf
      | NegInf \<Rightarrow> Inr PosInf
      | Finite a \<Rightarrow>
          if a = 0 then Inr 0
          else if \<bar>a\<bar> = 1 then Inr 1
          else (case libm_pow2 P \<bar>a\<bar> of (ix, en) \<Rightarrow>
                 let en' = (if en = ENONE
                            then (if ix = PosInf \<or> ix = NegInf then ERANGE else ENONE)
                            else if en = ERANGE \<and> ix = 0 then ENONE else en)
                 in if en' = ENONE then Inr ix
                    else if en' = ERANGE then Inl OverflowError
                    else Inl ValueError))"

definition ideal_platform :: platform where
  \<comment> \<open>The platform of the instances below: arrays of up to \<^verbatim>\<open>2^31\<close> entries, and a
      correctly rounded \<^verbatim>\<open>pow\<close> that leaves \<^verbatim>\<open>errno\<close> alone.\<close>
  "ideal_platform =
     \<lparr>np_refuses = (\<lambda>n. if 2 ^ 31 < n then Some MemoryError else None),
      libm_pow2 = (\<lambda>a. (round_double (a * a), ENONE))\<rparr>"

subsection \<open>Matrices\<close>

type_synonym matrix = "double list list"

definition square :: "nat \<Rightarrow> matrix \<Rightarrow> bool" where
  "square n A = (length A = n \<and> list_all (\<lambda>r. length r = n) A)"

definition ones :: "platform \<Rightarrow> int \<Rightarrow> error + double list" where
  \<comment> \<open>\<^verbatim>\<open>np.ones(n)\<close>: a size that the platform refuses, or a negative one, raises.\<close>
  "ones P n =
     (case np_refuses P n of
        Some e \<Rightarrow> Inl e
      | None \<Rightarrow> if n < 0 then Inl ValueError else Inr (replicate (nat n) 1))"

definition diag_length :: "nat \<Rightarrow> nat \<Rightarrow> int \<Rightarrow> int" where
  \<comment> \<open>The number of entries on the diagonal with offset \<open>k\<close> of an \<open>m\<close> by \<open>n\<close> matrix;
      negative when the offset lies outside the matrix.\<close>
  "diag_length m n k = min (min (int m + k) (int n - k)) (int (min m n))"

definition diag_entry :: "double list list \<Rightarrow> int list \<Rightarrow> nat \<Rightarrow> nat \<Rightarrow> double" where
  \<comment> \<open>Entry \<open>(i, j)\<close>: the element of the diagonal whose offset is \<open>j - i\<close>, or zero when
      there is none; a diagonal of length one is broadcast along its offset.\<close>
  "diag_entry diagonals offsets i j =
     (case find (\<lambda>(d, k). int j - int i = k) (zip diagonals offsets) of
        None \<Rightarrow> 0
      | Some (d, k) \<Rightarrow> if length d = 1 then d ! 0 else d ! min i j)"

definition diags :: "double list list \<Rightarrow> int list \<Rightarrow> nat \<times> nat \<Rightarrow> error + matrix" where
  \<comment> \<open>\<^verbatim>\<open>scipy.sparse.diags(diagonals, offsets, shape)\<close> for a list of diagonals: the
      diagonal at offset \<open>k\<close> holds the entries \<open>(i, i + k)\<close>. The call is refused when
      the two lists differ in length, when an offset lies outside the matrix, when a
      diagonal is too short (and not of length one), or when an offset is repeated.\<close>
  "diags diagonals offsets shp =
     (case shp of (m, n) \<Rightarrow>
        if length diagonals \<noteq> length offsets then Inl ValueError
        else if list_ex (\<lambda>(d, k). diag_length m n k < 0) (zip diagonals offsets)
          then Inl ValueError
        else if list_ex (\<lambda>(d, k). int (length d) < diag_length m n k \<and> length d \<noteq> 1)
                  (zip diagonals offsets)
          then Inl ValueError
        else if \<not> distinct offsets then Inl ValueError
        else Inr (map (\<lambda>i. map (diag_entry diagonals offsets i) [0..<n]) [0..<m]))"

definition scale :: "matrix \<Rightarrow> double \<Rightarrow> matrix" where
  \<comment> \<open>\<^verbatim>\<open>A * c\<close> for a scalar \<open>c\<close>, on the matrix that \<^verbatim>\<open>diags\<close> has assembled: its
      CSR form stores the nonzero entries of the diagonals and nothing else, and the
      scalar multiplies the stored entries; an entry that is not stored stays zero,
      also for an infinite or NaN scalar.\<close>
  "scale A c = map (map (\<lambda>x. if x = 0 then 0 else fmul x c)) A"

definition set_row :: "matrix \<Rightarrow> int \<Rightarrow> double \<Rightarrow> error + matrix" where
  \<comment> \<open>\<^verbatim>\<open>A[i, :] = v\<close>\<close>
  "set_row A i v =
     and_then (py_index (length A) i)
       (\<lambda>r. Inr (A[r := replicate (length (A ! r)) v]))"

definition set_entry :: "matrix \<Rightarrow> int \<Rightarrow> int \<Rightarrow> double \<Rightarrow> error + matrix" where
  \<comment> \<open>\<^verbatim>\<open>A[i, j] = v\<close>\<close>
  "set_entry A i j v =
     and_then (py_index (length A) i)
       (\<lambda>r. and_then (py_index (length (A ! r)) j)
          (\<lambda>c. Inr (A[r := (A ! r)[c := v]])))"

subsection \<open>Assembly of the operator\<close>

definition apply_dirichlet :: "matrix \<Rightarrow> error + matrix" where
  \<comment> \<open>The boundary-condition block of \<^verbatim>\<open>build_1d_operator\<close> (lines 43 to 49):
      \<^verbatim>\<open>A[0, :] = 0.0; A[0, 0] = 1.0; A[-1, :] = 0.0; A[-1, -1] = 1.0\<close>.\<close>
  "apply_dirichlet A =
     and_then (set_row A 0 0) (\<lambda>A1.
     and_then (set_entry A1 0 0 1) (\<lambda>A2.
     and_then (set_row A2 (- 1) 0) (\<lambda>A3.
     set_entry A3 (- 1) (- 1) 1)))"

definition build_1d_operator :: "platform \<Rightarrow> int \<Rightarrow> double \<Rightarrow> double \<Rightarrow> error + matrix" where
  \<comment> \<open>\<open>L\<close> and \<open>nu\<close> are floats and \<open>N\<close> is an integer. In \<^verbatim>\<open>L / (N - 1)\<close> the
      integer is converted first.\<close>
  "build_1d_operator P N L nu =
     and_then (float_of_int (N - 1)) (\<lambda>N1.
     and_then (py_div L N1) (\<lambda>dx.
     and_then (ones P N) (\<lambda>o1.
     let main_diag = map (fmul (Finite (- 2))) o1 in
     and_then (ones P (N - 1)) (\<lambda>o2.
     let off_diag = map (fmul (Finite 1)) o2;
         diagonals = [main_diag, off_diag, off_diag];
         offsets = [0, - 1, 1] in
     and_then (diags diagonals offsets (nat N, nat N)) (\<lambda>A.
     and_then (py_pow2 P dx) (\<lambda>dx2.
     and_then (py_div nu dx2) (\<lambda>c.
     apply_dirichlet (scale A c))))))))"

subsection \<open>The eigenvalue solver wrapper\<close>

text \<open>
  \<^verbatim>\<open>scipy.sparse.linalg.eigs(A, k=k, which='LR')\<close> is library code: it is a
  parameter of the model, a function that reads the operator and either raises or
  returns the pair of eigenvalues and eigenvectors.
\<close>

type_synonym eigs_fn = "matrix \<Rightarrow> int \<Rightarrow> error + complex list \<times> complex list list"

text \<open>What the functions print, one constructor for each \<^verbatim>\<open>print\<close> call.\<close>

datatype message = Starting int | Failed error

text \<open>
  The state that \<^verbatim>\<open>run_arnoldi_solver\<close> runs in: the matrix object that its
  argument \<^verbatim>\<open>A\<close> refers to, which the caller still holds after the call, and the
  standard output.
\<close>

record state =
  operator :: matrix
  stdout :: "message list"

definition run_arnoldi_solver ::
    "eigs_fn \<Rightarrow> int \<Rightarrow> state \<Rightarrow> (error + complex list option) \<times> state" where
  \<comment> \<open>The result is \<open>Inl e\<close> for an exception that leaves the function, \<open>Inr None\<close> for the
      returned \<^verbatim>\<open>None\<close> and \<open>Inr (Some vals)\<close> for the returned eigenvalues.\<close>
  "run_arnoldi_solver eigs k s =
     (let s1 = s\<lparr>stdout := stdout s @ [Starting k]\<rparr>
      in case eigs (operator s1) k of
           Inr (vals, vecs) \<Rightarrow> (Inr (Some vals), s1)
         | Inl e \<Rightarrow> (Inr None, s1\<lparr>stdout := stdout s1 @ [Failed e]\<rparr>))"

subsection \<open>The report of the main block\<close>

datatype stability = STABLE | UNSTABLE

text \<open>One printed line \<^verbatim>\<open>Mode i: sigma_r + freq j [status]\<close>.\<close>

record mode =
  index :: nat
  sigma_r :: real
  freq :: real
  status :: stability

fun print_modes :: "nat \<Rightarrow> complex list \<Rightarrow> mode list" where
  \<comment> \<open>The loop \<^verbatim>\<open>for i, ev in enumerate(eigenvalues)\<close>, from position \<open>i\<close> on.\<close>
  "print_modes i [] = []"
| "print_modes i (ev # evs) =
     (if \<bar>Re ev - 1\<bar> > 1 / 10000
      then \<lparr>index = i, sigma_r = Re ev, freq = Im ev,
            status = (if Re ev < 0 then STABLE else UNSTABLE)\<rparr> # print_modes (Suc i) evs
      else print_modes (Suc i) evs)"

definition report_spectrum :: "complex list option \<Rightarrow> mode list" where
  \<comment> \<open>Lines 82 to 90: nothing is reported for \<^verbatim>\<open>None\<close>.\<close>
  "report_spectrum eigenvalues =
     (case eigenvalues of None \<Rightarrow> [] | Some vals \<Rightarrow> print_modes 0 vals)"

definition symmetric :: "matrix \<Rightarrow> bool" where
  \<comment> \<open>Entry \<open>(i, j)\<close> equals entry \<open>(j, i)\<close>, for all positions.\<close>
  "symmetric A =
     list_all (\<lambda>i. list_all (\<lambda>j. A ! i ! j = A ! j ! i) [0..<length A]) [0..<length A]"

definition stencil :: "double \<Rightarrow> nat \<Rightarrow> nat \<Rightarrow> double" where
  \<comment> \<open>The three-point stencil with the scalar \<open>c\<close> multiplied in, at entry \<open>(i, j)\<close>.\<close>
  "stencil c i j =
     (if j = i then fmul (Finite (- 2)) c
      else if j + 1 = i \<or> j = i + 1 then fmul (Finite 1) c
      else 0)"

subsection \<open>Auxiliary notions\<close>

definition base_stencil :: "nat \<Rightarrow> nat \<Rightarrow> double" where
  \<comment> \<open>The entries that \<^verbatim>\<open>diags\<close> assembles from the three diagonals.\<close>
  "base_stencil i j =
     (if j = i then Finite (- 2) else if j + 1 = i \<or> j = i + 1 then Finite 1 else 0)"

definition operator_of :: "nat \<Rightarrow> double \<Rightarrow> matrix" where
  \<comment> \<open>The matrix that \<^verbatim>\<open>build_1d_operator\<close> returns for \<open>n\<close> points and the scalar \<open>c\<close>.\<close>
  "operator_of n c =
     (map (\<lambda>i. map (stencil c i) [0..<n]) [0..<n])
       [0 := 1 # replicate (n - 1) 0, n - 1 := replicate (n - 1) 0 @ [1]]"

section \<open>Properties\<close>

subsection \<open>Rounding\<close>

lemma round_half_even_of_int: "round_half_even (of_int m) = m"
  by (simp add: round_half_even_def)

lemma sgn_abs_rat: "sgn (v::rat) * \<bar>v\<bar> = v"
  by (simp add: abs_rat_def sgn_rat_def)

lemma round_double_exact:
  assumes "representable v"
  shows "round_double v = Finite v"
proof -
  define R where "R = \<bar>v\<bar> * 2 ^ 1074"
  define n where "n = \<lfloor>R\<rfloor>"
  define s where "s = nat (bitlen n - 53)"
  from assms have int: "of_int n = R" and small: "n < 2 ^ 2098" and dvd: "2 ^ s dvd n"
    by (simp_all add: representable_def Let_def R_def n_def s_def)
  from dvd obtain m where m: "n = 2 ^ s * m" ..
  have "R / 2 ^ s = of_int m"
    by (simp add: int[symmetric] m)
  then have V: "round_half_even (R / 2 ^ s) * 2 ^ s = n"
    by (simp add: round_half_even_of_int m)
  have "sgn v * of_int n / 2 ^ 1074 = v"
    by (simp add: int R_def sgn_abs_rat mult.assoc[symmetric])
  with V small show ?thesis
    unfolding round_double_def Let_def R_def[symmetric] n_def[symmetric] s_def[symmetric]
    by simp
qed

lemma round_half_even_bounds:
  "of_int (round_half_even q) \<le> q + 1 / 2" "q - 1 / 2 \<le> of_int (round_half_even q)"
  "\<lfloor>q\<rfloor> \<le> round_half_even q" "round_half_even q \<le> \<lfloor>q\<rfloor> + 1"
  by (auto simp: round_half_even_def Let_def) linarith+

lemma scaled_mantissa_bound:
  fixes R :: rat
  assumes "0 \<le> R"
  shows "R / 2 ^ nat (bitlen \<lfloor>R\<rfloor> - 53) < 2 ^ 53"
proof -
  define n where "n = \<lfloor>R\<rfloor>"
  define b where "b = bitlen n"
  have n0: "0 \<le> n" using assms by (simp add: n_def)
  have "n < 2 ^ nat b"
  proof (cases "n = 0")
    case True then show ?thesis by simp
  next
    case False
    with n0 have "0 < n" by simp
    from bitlen_bounds[OF this] show ?thesis by (simp add: b_def)
  qed
  then have "n + 1 \<le> 2 ^ nat b" by simp
  then have "rat_of_int (n + 1) \<le> rat_of_int (2 ^ nat b)"
    by (simp only: of_int_le_iff)
  moreover have "R < rat_of_int n + 1" unfolding n_def by linarith
  ultimately have R: "R < 2 ^ nat b" by simp
  have b0: "0 \<le> b" by (simp add: b_def bitlen_nonneg)
  show ?thesis
  proof (cases "53 \<le> b")
    case True
    then have "nat b = nat (b - 53) + 53" by simp
    then have "(2::rat) ^ nat b = 2 ^ nat (b - 53) * 2 ^ 53"
      by (metis power_add)
    with R show ?thesis
      unfolding n_def[symmetric] b_def[symmetric]
      by (simp add: divide_less_eq mult.commute)
  next
    case False
    then have "nat (b - 53) = 0" "nat b \<le> 53" by simp_all
    moreover have "(2::rat) ^ nat b \<le> 2 ^ 53"
      using \<open>nat b \<le> 53\<close> by (intro power_increasing) simp_all
    ultimately show ?thesis
      using R unfolding n_def[symmetric] b_def[symmetric] by simp
  qed
qed

lemma representable_scaled:
  fixes m :: int
  assumes "0 \<le> m" "m < 2 ^ 53" "m * 2 ^ e < 2 ^ 2098" "\<bar>v\<bar> * 2 ^ 1074 = of_int (m * 2 ^ e)"
  shows "representable v"
proof (cases "m = 0")
  case True
  with assms(4) show ?thesis by (simp add: representable_def)
next
  case False
  with assms(1) have m: "0 < m" by simp
  have "bitlen m \<le> 53"
    using assms(2) by (simp add: bitlen_le_iff_power)
  then have "nat (bitlen (m * 2 ^ e) - 53) \<le> e"
    using m by simp
  then have "(2::int) ^ nat (bitlen (m * 2 ^ e) - 53) dvd 2 ^ e"
    by (rule le_imp_power_dvd)
  then have "(2::int) ^ nat (bitlen (m * 2 ^ e) - 53) dvd m * 2 ^ e"
    by (rule dvd_mult)
  with assms(3) show ?thesis
    unfolding representable_def Let_def assms(4) floor_of_int by simp
qed

lemma round_double_representable:
  assumes "round_double r = Finite v"
  shows "representable v"
proof -
  define R where "R = \<bar>r\<bar> * 2 ^ 1074"
  define s where "s = nat (bitlen \<lfloor>R\<rfloor> - 53)"
  define m where "m = round_half_even (R / 2 ^ s)"
  have R0: "0 \<le> R" by (simp add: R_def)
  from assms have small: "m * 2 ^ s < 2 ^ 2098" and v: "v = sgn r * of_int (m * 2 ^ s) / 2 ^ 1074"
    unfolding round_double_def Let_def R_def[symmetric] s_def[symmetric] m_def[symmetric]
    by (auto split: if_splits)
  have q0: "0 \<le> R / 2 ^ s" using R0 by simp
  have m0: "0 \<le> m"
    using round_half_even_bounds(3)[of "R / 2 ^ s"] q0 unfolding m_def
    by (meson order_trans zero_le_floor)
  have "R / 2 ^ s < 2 ^ 53"
    unfolding s_def by (rule scaled_mantissa_bound[OF R0])
  then have "\<lfloor>R / 2 ^ s\<rfloor> < 2 ^ 53"
    by (simp add: floor_less_iff)
  with round_half_even_bounds(4)[of "R / 2 ^ s"] have m53: "m \<le> 2 ^ 53"
    unfolding m_def by linarith
  have av: "\<bar>v\<bar> * 2 ^ 1074 = of_int (m * 2 ^ s)"
  proof (cases "r = 0")
    case True
    then have "R = 0" by (simp add: R_def)
    then have "m = 0" by (simp add: m_def round_half_even_def)
    with True v show ?thesis by simp
  next
    case False
    then have "\<bar>sgn r\<bar> = 1" by (simp add: sgn_rat_def)
    moreover have "\<bar>rat_of_int (m * 2 ^ s)\<bar> = rat_of_int (m * 2 ^ s)"
      using m0 by simp
    ultimately have "\<bar>v\<bar> = rat_of_int (m * 2 ^ s) / 2 ^ 1074"
      unfolding v by (simp add: abs_mult del: power_numeral of_int_mult of_int_power)
    then show ?thesis by (simp del: power_numeral of_int_mult of_int_power)
  qed
  show ?thesis
  proof (cases "m = 2 ^ 53")
    case True
    have "m * 2 ^ s = 1 * 2 ^ (53 + s)"
      by (simp add: True power_add)
    with small av show ?thesis
      by (intro representable_scaled[where m = 1 and e = "53 + s"]) simp_all
  next
    case False
    with m53 have "m < 2 ^ 53" by simp
    with m0 small av show ?thesis
      by (intro representable_scaled[where m = m and e = s]) simp_all
  qed
qed

lemma representable_minus: "representable v \<Longrightarrow> representable (- v)"
  by (simp add: representable_def)

lemma representable_double:
  assumes "representable v" "\<bar>v\<bar> * 2 < 2 ^ 1024"
  shows "representable (2 * v)"
proof -
  define n where "n = \<lfloor>\<bar>v\<bar> * 2 ^ 1074\<rfloor>"
  from assms(1) have int: "of_int n = \<bar>v\<bar> * 2 ^ 1074"
    and dvd: "2 ^ nat (bitlen n - 53) dvd n"
    by (simp_all add: representable_def Let_def n_def)
  have R2: "\<bar>2 * v\<bar> * 2 ^ 1074 = of_int (2 * n)"
    by (simp add: int abs_mult)
  have "rat_of_int (2 * n) < 2 ^ 1024 * 2 ^ 1074"
    using assms(2) by (simp add: int)
  then have "rat_of_int (2 * n) < rat_of_int (2 ^ 2098)"
    by simp
  then have small: "2 * n < 2 ^ 2098"
    by (simp only: of_int_less_iff)
  have n0: "0 \<le> n" by (simp add: n_def)
  have dvd2: "2 ^ nat (bitlen (2 * n) - 53) dvd 2 * n"
  proof (cases "n = 0")
    case True then show ?thesis by simp
  next
    case False
    with n0 have "0 < n" by simp
    then have "bitlen (2 * n) = bitlen n + 1"
      using bitlen_pow2[of n 1] by (simp add: mult.commute)
    then have "nat (bitlen (2 * n) - 53) \<le> Suc (nat (bitlen n - 53))"
      by simp
    then have "(2::int) ^ nat (bitlen (2 * n) - 53) dvd 2 ^ Suc (nat (bitlen n - 53))"
      by (rule le_imp_power_dvd)
    moreover have "(2::int) ^ Suc (nat (bitlen n - 53)) dvd 2 * n"
      using dvd by simp
    ultimately show ?thesis by (rule dvd_trans)
  qed
  show ?thesis
    unfolding representable_def Let_def R2 floor_of_int using small dvd2 by simp
qed

lemma round_double_tiny:
  assumes "\<bar>r\<bar> * 2 ^ 1075 \<le> 1"
  shows "round_double r = Finite 0"
proof -
  define R where "R = \<bar>r\<bar> * 2 ^ 1074"
  have R: "0 \<le> R" "R \<le> 1 / 2"
    using assms by (simp_all add: R_def)
  then have fl: "\<lfloor>R\<rfloor> = 0" by (simp add: floor_eq_iff)
  have "round_half_even R = 0"
    using R fl by (simp add: round_half_even_def)
  then show ?thesis
    unfolding round_double_def Let_def R_def[symmetric] by (simp add: fl)
qed

lemma round_double_huge:
  assumes "2 ^ 1024 \<le> \<bar>r\<bar>"
  shows "round_double r = signed_inf (r < 0)"
proof -
  define R where "R = \<bar>r\<bar> * 2 ^ 1074"
  define n where "n = \<lfloor>R\<rfloor>"
  define b where "b = bitlen n"
  define s where "s = nat (b - 53)"
  define m where "m = round_half_even (R / 2 ^ s)"
  have "(2::rat) ^ 1024 * 2 ^ 1074 \<le> R"
    unfolding R_def using assms by (intro mult_right_mono) simp_all
  then have "rat_of_int (2 ^ 2098) \<le> R" by simp
  then have n: "2 ^ 2098 \<le> n"
    unfolding n_def by (simp only: le_floor_iff)
  moreover have "(0::int) < 2 ^ 2098" by simp
  ultimately have npos: "0 < n" by linarith
  have b: "2099 \<le> b"
    unfolding b_def using n by (simp add: bitlen_ge_iff_power del: power_numeral)
  then have nb: "nat b = s + 53" and s: "2046 \<le> s"
    by (simp_all add: s_def)
  have "2 ^ nat (b - 1) \<le> n"
    using bitlen_bounds[OF npos] by (simp add: b_def)
  moreover have "nat (b - 1) = s + 52" using b by (simp add: s_def)
  ultimately have "2 ^ (s + 52) \<le> n" by simp
  then have "rat_of_int (2 ^ (s + 52)) \<le> rat_of_int n" by (simp only: of_int_le_iff)
  also have "rat_of_int n \<le> R" by (simp add: n_def)
  finally have "(2::rat) ^ 52 * 2 ^ s \<le> R" by (simp add: power_add mult.commute)
  then have "2 ^ 52 \<le> R / 2 ^ s" by (simp add: le_divide_eq del: power_numeral)
  then have "2 ^ 52 \<le> \<lfloor>R / 2 ^ s\<rfloor>"
    by (metis le_floor_iff of_int_numeral of_int_power)
  with round_half_even_bounds(3)[of "R / 2 ^ s"] have "2 ^ 52 \<le> m"
    unfolding m_def by linarith
  then have "(2::int) ^ 52 * 2 ^ s \<le> m * 2 ^ s"
    by (intro mult_right_mono) simp_all
  moreover have "(2::int) ^ 2098 \<le> 2 ^ 52 * 2 ^ s"
  proof -
    have "(2::int) ^ 2098 \<le> 2 ^ (52 + s)"
      using s by (intro power_increasing) simp_all
    then show ?thesis by (simp only: power_add)
  qed
  ultimately have "2 ^ 2098 \<le> m * 2 ^ s" by (rule order_trans[rotated])
  then show ?thesis
    unfolding round_double_def Let_def R_def[symmetric] n_def[symmetric] b_def[symmetric]
      s_def[symmetric] m_def[symmetric] signed_inf_def
    by (simp del: power_numeral)
qed

lemma representable_0: "representable 0"
  by (simp add: representable_def)

lemma representable_pow2:
  assumes "k \<le> 1023"
  shows "representable (2 ^ k)"
proof (rule representable_scaled[where m = 1 and e = "k + 1074"])
  have "(2::int) ^ (k + 1074) < 2 ^ 2098"
    using assms by (intro power_strict_increasing) simp_all
  then show "1 * (2::int) ^ (k + 1074) < 2 ^ 2098" by simp
  show "\<bar>(2::rat) ^ k\<bar> * 2 ^ 1074 = rat_of_int (1 * 2 ^ (k + 1074))"
    by (simp add: power_add del: power_numeral)
qed simp_all

lemma representable_inv_pow2:
  assumes "k \<le> 1074"
  shows "representable (1 / 2 ^ k)"
proof (rule representable_scaled[where m = 1 and e = "1074 - k"])
  have "(2::int) ^ (1074 - k) < 2 ^ 2098"
    by (intro power_strict_increasing) simp_all
  then show "1 * (2::int) ^ (1074 - k) < 2 ^ 2098" by simp
  have "(2::rat) ^ 1074 = 2 ^ (1074 - k) * 2 ^ k"
    using assms by (simp add: power_add[symmetric] del: power_numeral)
  then show "\<bar>1 / (2::rat) ^ k\<bar> * 2 ^ 1074 = rat_of_int (1 * 2 ^ (1074 - k))"
    by (simp del: power_numeral)
qed simp_all

lemma representable_of_int:
  assumes "\<bar>n\<bar> < 2 ^ 53"
  shows "representable (of_int n)"
proof (rule representable_scaled[where m = "\<bar>n\<bar>" and e = 1074])
  have "\<bar>n\<bar> * 2 ^ 1074 < 2 ^ 53 * 2 ^ 1074"
    using assms by (intro mult_strict_right_mono) simp_all
  also have "\<dots> < (2::int) ^ 2098"
    by (simp add: power_add[symmetric] del: power_numeral)
  finally show "\<bar>n\<bar> * 2 ^ 1074 < 2 ^ 2098" .
  show "\<bar>rat_of_int n\<bar> * 2 ^ 1074 = rat_of_int (\<bar>n\<bar> * 2 ^ 1074)"
    by (simp del: power_numeral)
qed (use assms in simp_all)

lemma round_double_0: "round_double 0 = Finite 0"
  by (rule round_double_exact[OF representable_0])

lemma float_of_int_small:
  assumes "\<bar>n\<bar> < 2 ^ 53"
  shows "float_of_int n = Inr (Finite (of_int n))"
  by (simp add: float_of_int_def round_double_exact[OF representable_of_int[OF assms]])

lemma float_of_int_Inr: "float_of_int n = Inr x \<Longrightarrow> \<exists>v. x = Finite v"
  by (cases "round_double (rat_of_int n)") (auto simp: float_of_int_def)

lemma float_of_int_0: "float_of_int 0 = Inr 0"
  by (simp add: float_of_int_def round_double_0 zero_double_def)

lemma fmul_main: "fmul (Finite (- 2)) 1 = Finite (- 2)"
  using round_double_exact[OF representable_of_int[of "- 2"]]
  by (simp add: fmul_def one_double_def)

lemma fmul_off: "fmul (Finite 1) 1 = Finite 1"
  using round_double_exact[OF representable_of_int[of 1]]
  by (simp add: fmul_def one_double_def)

lemma fdiv_Finite_representable:
  assumes "fdiv a b = Finite v"
  shows "representable v"
proof (cases a)
  case (Finite x)
  show ?thesis
  proof (cases b)
    case (Finite y)
    with \<open>a = Finite x\<close> assms show ?thesis
      by (auto simp: fdiv_def intro: round_double_representable)
  qed (use Finite assms in \<open>auto simp: fdiv_def zero_double_def representable_0\<close>)
qed (use assms in \<open>cases b; auto simp: fdiv_def signed_inf_def split: if_splits\<close>)+

lemma fmul_one_fdiv: "fmul (Finite 1) (fdiv a b) = fdiv a b"
proof (cases "fdiv a b")
  case (Finite v)
  from fdiv_Finite_representable[OF this] show ?thesis
    by (simp add: Finite fmul_def round_double_exact)
qed (simp_all add: fmul_def zero_double_def signed_inf_def is_neg_def)

lemma fmul_minus_two:
  assumes "representable v" "\<bar>v\<bar> * 2 < 2 ^ 1024"
  shows "fmul (Finite (- 2)) (Finite v) = Finite (- 2 * v)"
proof -
  have "representable (- (2 * v))"
    by (intro representable_minus representable_double assms)
  then show ?thesis
    by (simp add: fmul_def round_double_exact)
qed

lemma py_div_fmul_one: "py_div a b = Inr c \<Longrightarrow> fmul (Finite 1) c = c"
  by (auto simp: py_div_def fmul_one_fdiv split: if_splits)

lemma py_div_representable: "py_div a b = Inr (Finite v) \<Longrightarrow> representable v"
  by (auto simp: py_div_def split: if_splits dest: fdiv_Finite_representable)

lemma py_div_exact:
  assumes "b \<noteq> 0" "representable (a / b)"
  shows "py_div (Finite a) (Finite b) = Inr (Finite (a / b))"
  using assms by (simp add: py_div_def fdiv_def zero_double_def round_double_exact)

lemma fmul_exact:
  assumes "representable (a * b)"
  shows "fmul (Finite a) (Finite b) = Finite (a * b)"
  using assms by (simp add: fmul_def round_double_exact)

subsection \<open>The boundary block and the assembled matrix\<close>

lemma py_index_0: "0 < n \<Longrightarrow> py_index n 0 = Inr 0"
  by (simp add: py_index_def)

lemma py_index_last: "0 < n \<Longrightarrow> py_index n (- 1) = Inr (n - 1)"
  by (auto simp add: py_index_def Let_def)

lemma apply_dirichlet_square:
  assumes "square n A" "2 \<le> n"
  shows "apply_dirichlet A =
         Inr (A[0 := (1 # replicate (n - 1) 0), n - 1 := replicate (n - 1) 0 @ [1]])"
proof -
  from assms have len: "length A = n" and r0: "length (A ! 0) = n"
    and rl: "length (A ! (n - 1)) = n"
    by (auto simp: square_def list_all_length)
  have a: "(replicate n (0::double))[0 := 1] = 1 # replicate (n - 1) 0"
    using assms(2) by (cases n) auto
  have b: "(replicate n (0::double))[n - 1 := 1] = replicate (n - 1) 0 @ [1]"
    using assms(2) by (intro nth_equalityI) (auto simp: nth_append nth_list_update)
  show ?thesis
    using assms(2) len r0 rl a b
    by (simp add: apply_dirichlet_def set_row_def set_entry_def and_then_def
        py_index_0 py_index_last)
qed

lemma nat_pred: "nat (int k - 1) = k - Suc 0"
  by arith

lemma apply_dirichlet_Inr:
  "apply_dirichlet A = Inr B \<longleftrightarrow>
     (A \<noteq> [] \<and> A ! 0 \<noteq> [] \<and> (length A = 1 \<or> A ! (length A - 1) \<noteq> []) \<and>
      B = A[0 := (replicate (length (A ! 0)) 0)[0 := 1],
            length A - 1 :=
              (replicate
                 (length ((A[0 := (replicate (length (A ! 0)) 0)[0 := 1]]) ! (length A - 1))) 0)
              [length ((A[0 := (replicate (length (A ! 0)) 0)[0 := 1]]) ! (length A - 1)) - 1
                 := 1]])"
proof -
  consider (empty) "A = []"
    | (no_columns) "A \<noteq> []" "A ! 0 = []"
    | (one_row) "A \<noteq> []" "A ! 0 \<noteq> []" "length A = 1"
    | (rows) "A \<noteq> []" "A ! 0 \<noteq> []" "length A \<noteq> 1"
    by blast
  then show ?thesis
  proof cases
    case empty
    then show ?thesis
      by (simp add: apply_dirichlet_def set_row_def and_then_def py_index_def)
  next
    case no_columns
    then show ?thesis
      by (simp add: apply_dirichlet_def set_row_def set_entry_def and_then_def
          py_index_0 py_index_def)
  next
    case one_row
    then show ?thesis
      by (auto simp add: apply_dirichlet_def set_row_def set_entry_def and_then_def
          py_index_0 py_index_last)
  next
    case rows
    then show ?thesis
      by (cases "A ! (length A - Suc 0) = []")
        (auto simp add: apply_dirichlet_def set_row_def set_entry_def and_then_def
          py_index_0 py_index_last nth_list_update py_index_def nat_pred)
  qed
qed

lemma and_then_Inr: "and_then r f = Inr y \<longleftrightarrow> (\<exists>x. r = Inr x \<and> f x = Inr y)"
  by (cases r) (simp_all add: and_then_def)

lemma ones_Inr: "ones P n = Inr xs \<Longrightarrow> 0 \<le> n"
  by (auto simp: ones_def split: option.splits if_splits)

lemma diags_stencil:
  assumes "2 \<le> n"
  shows "diags [replicate n (Finite (- 2)), replicate (n - 1) (Finite 1),
                replicate (n - 1) (Finite 1)] [0, - 1, 1] (n, n)
         = Inr (map (\<lambda>i. map (base_stencil i) [0..<n]) [0..<n])"
proof -
  have len: "diag_length n n 0 = int n" "diag_length n n (- 1) = int n - 1"
    "diag_length n n 1 = int n - 1"
    using assms by (auto simp: diag_length_def)
  have ent: "diag_entry [replicate n (Finite (- 2)), replicate (n - Suc 0) (Finite 1),
                replicate (n - Suc 0) (Finite 1)] [0, - 1, 1] i j = base_stencil i j"
    if "i < n" "j < n" for i j
    using that assms by (auto simp: diag_entry_def base_stencil_def)
  show ?thesis
    using assms by (simp add: diags_def len ent)
qed

lemma scale_base_stencil:
  "(if base_stencil i j = 0 then 0 else fmul (base_stencil i j) c) = stencil c i j"
  by (simp add: base_stencil_def stencil_def zero_double_def)


lemma build_1d_operator_Inr:
  assumes "2 \<le> N"
  shows "build_1d_operator P N L nu = Inr A \<longleftrightarrow>
     (\<exists>N1 dx dx2 c.
        float_of_int (N - 1) = Inr N1 \<and> py_div L N1 = Inr dx \<and>
        np_refuses P N = None \<and> np_refuses P (N - 1) = None \<and>
        py_pow2 P dx = Inr dx2 \<and> py_div nu dx2 = Inr c \<and>
        A = (map (\<lambda>i. map (stencil c i) [0..<nat N]) [0..<nat N])
              [0 := 1 # replicate (nat N - 1) 0,
               nat N - 1 := replicate (nat N - 1) 0 @ [1]])"
proof -
  define n where "n = nat N"
  have n: "2 \<le> n" "nat (N - 1) = n - 1" using assms by (auto simp: n_def)
  have neg: "\<not> N < 0" "\<not> N - 1 < 0" using assms by simp_all
  have sc: "scale (map (\<lambda>i. map (base_stencil i) [0..<n]) [0..<n]) c
        = map (\<lambda>i. map (stencil c i) [0..<n]) [0..<n]" for c
    by (simp add: scale_def comp_def scale_base_stencil)
  have sq: "square n (map (\<lambda>i. map (stencil c i) [0..<n]) [0..<n])" for c
    by (simp add: square_def list_all_iff)
  show ?thesis
    unfolding build_1d_operator_def ones_def Let_def n_def[symmetric]
    using neg n diags_stencil[OF n(1)] 
    by (auto simp add: and_then_def fmul_main fmul_off sc apply_dirichlet_square[OF sq n(1)]
        split: sum.splits option.splits)
qed

lemma build_1d_operator_steps:
  assumes "2 \<le> N" "np_refuses P N = None" "np_refuses P (N - 1) = None"
    "float_of_int (N - 1) = Inr N1" "py_div L N1 = Inr dx"
  shows "build_1d_operator P N L nu =
         and_then (py_pow2 P dx) (\<lambda>dx2. and_then (py_div nu dx2) (\<lambda>c.
           Inr (operator_of (nat N) c)))"
proof -
  define n where "n = nat N"
  have n: "2 \<le> n" "nat (N - 1) = n - 1" using assms(1) by (auto simp: n_def)
  have neg: "\<not> N < 0" "\<not> N - 1 < 0" using assms(1) by simp_all
  have sc: "scale (map (\<lambda>i. map (base_stencil i) [0..<n]) [0..<n]) c
        = map (\<lambda>i. map (stencil c i) [0..<n]) [0..<n]" for c
    by (simp add: scale_def comp_def scale_base_stencil)
  have sq: "square n (map (\<lambda>i. map (stencil c i) [0..<n]) [0..<n])" for c
    by (simp add: square_def list_all_iff)
  show ?thesis
    unfolding build_1d_operator_def ones_def Let_def operator_of_def n_def[symmetric]
    using neg n assms(2-5) diags_stencil[OF n(1)]
    by (simp add: and_then_def fmul_main fmul_off sc apply_dirichlet_square[OF sq n(1)]
        split: sum.splits)
qed

lemma build_1d_operator_N1: "build_1d_operator P 1 L nu = Inl ZeroDivisionError"
  by (simp add: build_1d_operator_def float_of_int_0 py_div_def and_then_def)

lemma build_1d_operator_Inr_ge2:
  assumes "build_1d_operator P N L nu = Inr A"
  shows "2 \<le> N"
proof -
  from assms obtain o1 o2 where "ones P N = Inr o1" "ones P (N - 1) = Inr o2"
    unfolding build_1d_operator_def Let_def and_then_Inr by blast
  then have "1 \<le> N" using ones_Inr[of P "N - 1" o2] by simp
  moreover have "N \<noteq> 1" using assms build_1d_operator_N1 by auto
  ultimately show ?thesis by simp
qed

lemma build_1d_operator_L0:
  "build_1d_operator P N 0 nu \<noteq> Inr A"
proof
  assume a: "build_1d_operator P N 0 nu = Inr A"
  then have N: "2 \<le> N" by (rule build_1d_operator_Inr_ge2)
  from a obtain N1 dx dx2 c where s: "float_of_int (N - 1) = Inr N1" "py_div 0 N1 = Inr dx"
    "py_pow2 P dx = Inr dx2" "py_div nu dx2 = Inr c"
    unfolding build_1d_operator_Inr[OF N] by blast
  from float_of_int_Inr[OF s(1)] obtain v where "N1 = Finite v" ..
  with s(2) have "dx = 0"
    by (auto simp: py_div_def fdiv_def zero_double_def round_double_0 split: if_splits)
  with s(3) have "dx2 = 0"
    by (simp add: py_pow2_def zero_double_def)
  with s(4) show False by (simp add: py_div_def)
qed

lemma operator_of_nth:
  assumes "2 \<le> n" "i < n" "j < n"
  shows "operator_of n c ! i ! j =
     (if i = 0 then (if j = 0 then 1 else 0)
      else if i = n - 1 then (if j = n - 1 then 1 else 0)
      else stencil c i j)"
  using assms
  by (auto simp: operator_of_def nth_list_update nth_append nth_Cons')

lemma operator_of_row:
  assumes "1 \<le> i" "i + 1 < n"
  shows "operator_of n c ! i = map (stencil c i) [0..<n]"
  using assms by (simp add: operator_of_def)

lemma operator_of_3:
  "operator_of 3 c = [[1, 0, 0], [fmul (Finite 1) c, fmul (Finite (- 2)) c, fmul (Finite 1) c],
                      [0, 0, 1]]"
  by (simp add: operator_of_def stencil_def upt_rec numeral_2_eq_2)

lemma sum_exact_stencil:
  fixes v :: rat
  assumes "1 \<le> i" "i + 1 < n"
  shows "sum_list (map (\<lambda>j. if j = i then - 2 * v else if j + 1 = i \<or> j = i + 1 then v else 0)
           [0..<n]) = 0"
proof -
  have eq: "(if j = i then - 2 * v else if j + 1 = i \<or> j = i + 1 then v else 0)
      = (if j = i then - 2 * v else 0) + (if j = i - 1 then v else 0)
        + (if j = i + 1 then v else 0)" for j
    using assms by auto
  have "sum_list (map (\<lambda>j. if j = i then - 2 * v else if j + 1 = i \<or> j = i + 1 then v else 0)
           [0..<n])
      = (\<Sum>j = 0..<n. if j = i then - 2 * v else if j + 1 = i \<or> j = i + 1 then v else 0)"
    by (simp add: interv_sum_list_conv_sum_set_nat)
  also have "\<dots> = 0"
  proof -
    have "i - 1 < n" using assms by simp
    then show ?thesis using assms by (simp add: eq sum.distrib)
  qed
  finally show ?thesis .
qed

subsection \<open>Evaluation on the reference platform\<close>

text \<open>
  The instances are evaluated on \<open>ideal_platform\<close>. Their arguments are chosen so that
  the platform does not matter: the sizes are at most four, and each square is either
  one that the interpreter settles itself, an exact power of two, or so far out of
  range that it overflows or underflows to zero.
\<close>

lemma ideal_platform_simps:
  "n \<le> 2 ^ 31 \<Longrightarrow> np_refuses ideal_platform n = None"
  "libm_pow2 ideal_platform a = (round_double (a * a), ENONE)"
  by (simp_all add: ideal_platform_def)

lemma py_pow2_ideal:
  assumes "a \<noteq> 0" "\<bar>a\<bar> \<noteq> 1"
  shows "py_pow2 ideal_platform (Finite a) =
         (case round_double (a * a) of
            PosInf \<Rightarrow> Inl OverflowError | NegInf \<Rightarrow> Inl OverflowError | x \<Rightarrow> Inr x)"
  using assms
  by (cases "round_double (a * a)") (simp_all add: py_pow2_def ideal_platform_simps)

lemma py_pow2_ideal_exact:
  assumes "a \<noteq> 0" "\<bar>a\<bar> \<noteq> 1" "representable (a * a)"
  shows "py_pow2 ideal_platform (Finite a) = Inr (Finite (a * a))"
  using assms by (simp add: py_pow2_ideal round_double_exact)

lemma py_pow2_ideal_tiny:
  assumes "a \<noteq> 0" "\<bar>a\<bar> \<noteq> 1" "\<bar>a * a\<bar> * 2 ^ 1075 \<le> 1"
  shows "py_pow2 ideal_platform (Finite a) = Inr 0"
  using assms by (simp add: py_pow2_ideal round_double_tiny zero_double_def)

lemma py_pow2_ideal_huge:
  assumes "a \<noteq> 0" "\<bar>a\<bar> \<noteq> 1" "2 ^ 1024 \<le> \<bar>a * a\<bar>"
  shows "py_pow2 ideal_platform (Finite a) = Inl OverflowError"
proof -
  have "round_double (a * a) = PosInf"
    using round_double_huge[OF assms(3)] by (simp add: signed_inf_def not_less)
  then show ?thesis using assms by (simp add: py_pow2_ideal)
qed

lemma build_ideal:
  assumes "2 \<le> N" "N \<le> 2 ^ 31" "float_of_int (N - 1) = Inr N1" "py_div L N1 = Inr dx"
  shows "build_1d_operator ideal_platform N L nu =
         and_then (py_pow2 ideal_platform dx) (\<lambda>dx2. and_then (py_div nu dx2) (\<lambda>c.
           Inr (operator_of (nat N) c)))"
  using assms by (intro build_1d_operator_steps) (simp_all add: ideal_platform_simps)

lemma float_of_int_1: "float_of_int (2 - 1) = Inr (Finite 1)"
  using float_of_int_small[of 1] by simp

lemma float_of_int_2: "float_of_int (3 - 1) = Inr (Finite 2)"
  using float_of_int_small[of 2] by simp

lemma float_of_int_3: "float_of_int (4 - 1) = Inr (Finite 3)"
  using float_of_int_small[of 3] by simp

lemma build_ideal_identity: "build_1d_operator ideal_platform 2 1 1 = Inr [[1, 0], [0, 1]]"
proof -
  have r1: "representable 1" using representable_of_int[of 1] by simp
  have dx: "py_div 1 (Finite 1) = Inr 1"
    using py_div_exact[of 1 1] r1 by (simp add: one_double_def)
  have p: "py_pow2 ideal_platform 1 = Inr 1"
    by (simp add: py_pow2_def one_double_def)
  have c: "py_div 1 1 = Inr 1"
    using dx by (simp add: one_double_def)
  have b: "build_1d_operator ideal_platform 2 1 1 =
      and_then (py_pow2 ideal_platform 1) (\<lambda>dx2. and_then (py_div 1 dx2) (\<lambda>c.
        Inr (operator_of (nat 2) c)))"
    by (rule build_ideal[OF _ _ float_of_int_1 dx]) simp_all
  show ?thesis
    unfolding b using p c by (simp add: and_then_def operator_of_def upt_rec)
qed

lemma steps_negative_L:
  "py_div (Finite (- 1)) (Finite 2) = Inr (Finite (- 1 / 2))"
  "py_pow2 ideal_platform (Finite (- 1 / 2)) = Inr (Finite (1 / 4))"
  "py_div 1 (Finite (1 / 4)) = Inr (Finite 4)"
proof -
  show "py_div (Finite (- 1)) (Finite 2) = Inr (Finite (- 1 / 2))"
    using py_div_exact[of 2 "- 1"] representable_minus[OF representable_inv_pow2[of 1]]
    by simp
  show "py_pow2 ideal_platform (Finite (- 1 / 2)) = Inr (Finite (1 / 4))"
    using py_pow2_ideal_exact[of "- 1 / 2"] representable_inv_pow2[of 2] by simp
  show "py_div 1 (Finite (1 / 4)) = Inr (Finite 4)"
    using py_div_exact[of "1 / 4" 1] representable_of_int[of 4] by (simp add: one_double_def)
qed

lemma build_ideal_negative_L:
  "build_1d_operator ideal_platform 3 (Finite (- 1)) 1 =
     Inr [[1, 0, 0], [Finite 4, Finite (- 8), Finite 4], [0, 0, 1]]"
proof -
  have m: "fmul (Finite 1) (Finite 4) = Finite 4" "fmul (Finite (- 2)) (Finite 4) = Finite (- 8)"
    using fmul_exact[of 1 4] fmul_exact[of "- 2" 4] representable_of_int[of 4]
      representable_of_int[of "- 8"] by simp_all
  have b: "build_1d_operator ideal_platform 3 (Finite (- 1)) 1 =
      and_then (py_pow2 ideal_platform (Finite (- 1 / 2))) (\<lambda>dx2. and_then (py_div 1 dx2) (\<lambda>c.
        Inr (operator_of (nat 3) c)))"
    by (rule build_ideal[OF _ _ float_of_int_2 steps_negative_L(1)]) simp_all
  show ?thesis
    unfolding b using steps_negative_L(2,3) m by (simp add: and_then_def operator_of_3)
qed

lemma steps_tiny_L:
  "py_div (Finite (1 / 2 ^ 600)) (Finite 2) = Inr (Finite (1 / 2 ^ 601))"
  "py_pow2 ideal_platform (Finite (1 / 2 ^ 601)) = Inr 0"
proof -
  have q: "(1 / 2 ^ 600) / 2 = (1 / 2 ^ 601 :: rat)" by simp
  show "py_div (Finite (1 / 2 ^ 600)) (Finite 2) = Inr (Finite (1 / 2 ^ 601))"
    using py_div_exact[of 2 "1 / 2 ^ 600"] representable_inv_pow2[of 601] q by simp
  show "py_pow2 ideal_platform (Finite (1 / 2 ^ 601)) = Inr 0"
    by (rule py_pow2_ideal_tiny) simp_all
qed

lemma steps_huge_L:
  "py_div (Finite (2 ^ 600)) (Finite 2) = Inr (Finite (2 ^ 599))"
  "py_pow2 ideal_platform (Finite (2 ^ 599)) = Inl OverflowError"
proof -
  have q: "2 ^ 600 / 2 = (2 ^ 599 :: rat)" by simp
  show "py_div (Finite (2 ^ 600)) (Finite 2) = Inr (Finite (2 ^ 599))"
    using py_div_exact[of 2 "2 ^ 600"] representable_pow2[of 599] q by simp
  show "py_pow2 ideal_platform (Finite (2 ^ 599)) = Inl OverflowError"
    by (rule py_pow2_ideal_huge) simp_all
qed

lemma build_ideal_underflow:
  "build_1d_operator ideal_platform 3 (Finite (1 / 2 ^ 600)) 1 = Inl ZeroDivisionError"
proof -
  have b: "build_1d_operator ideal_platform 3 (Finite (1 / 2 ^ 600)) 1 =
      and_then (py_pow2 ideal_platform (Finite (1 / 2 ^ 601))) (\<lambda>dx2. and_then (py_div 1 dx2) (\<lambda>c.
        Inr (operator_of (nat 3) c)))"
    by (rule build_ideal[OF _ _ float_of_int_2 steps_tiny_L(1)]) simp_all
  show ?thesis
    unfolding b steps_tiny_L(2) by (simp add: and_then_def py_div_def)
qed

lemma build_ideal_infinite_entry:
  "build_1d_operator ideal_platform 3 (Finite 2) (Finite (2 ^ 1023)) =
     Inr [[1, 0, 0], [Finite (2 ^ 1023), NegInf, Finite (2 ^ 1023)], [0, 0, 1]]"
proof -
  have dx: "py_div (Finite 2) (Finite 2) = Inr 1"
    using py_div_exact[of 2 2] representable_of_int[of 1] by (simp add: one_double_def)
  have p: "py_pow2 ideal_platform 1 = Inr 1"
    by (simp add: py_pow2_def one_double_def)
  have c: "py_div (Finite (2 ^ 1023)) 1 = Inr (Finite (2 ^ 1023))"
    using py_div_exact[of 1 "2 ^ 1023"] representable_pow2[of 1023]
    by (simp add: one_double_def)
  have m1: "fmul (Finite 1) (Finite (2 ^ 1023)) = Finite (2 ^ 1023)"
    using fmul_exact[of 1 "2 ^ 1023"] representable_pow2[of 1023] by simp
  have "round_double (- 2 * 2 ^ 1023) = signed_inf (- 2 * 2 ^ 1023 < (0::rat))"
    by (rule round_double_huge) simp
  then have m2: "fmul (Finite (- 2)) (Finite (2 ^ 1023)) = NegInf"
    by (simp add: fmul_def signed_inf_def)
  have b: "build_1d_operator ideal_platform 3 (Finite 2) (Finite (2 ^ 1023)) =
      and_then (py_pow2 ideal_platform 1) (\<lambda>dx2. and_then (py_div (Finite (2 ^ 1023)) dx2) (\<lambda>c.
        Inr (operator_of (nat 3) c)))"
    by (rule build_ideal[OF _ _ float_of_int_2 dx]) simp_all
  show ?thesis
    unfolding b using p c m1 m2 by (simp add: and_then_def operator_of_3)
qed


lemma build_ideal_4:
  "build_1d_operator ideal_platform 4 (Finite 3) (Finite 2) =
     Inr [[1, 0, 0, 0], [Finite 2, Finite (- 4), Finite 2, 0],
          [0, Finite 2, Finite (- 4), Finite 2], [0, 0, 0, 1]]"
proof -
  have dx: "py_div (Finite 3) (Finite 3) = Inr 1"
    using py_div_exact[of 3 3] representable_of_int[of 1] by (simp add: one_double_def)
  have p: "py_pow2 ideal_platform 1 = Inr 1"
    by (simp add: py_pow2_def one_double_def)
  have c: "py_div (Finite 2) 1 = Inr (Finite 2)"
    using py_div_exact[of 1 2] representable_of_int[of 2] by (simp add: one_double_def)
  have m: "fmul (Finite 1) (Finite 2) = Finite 2" "fmul (Finite (- 2)) (Finite 2) = Finite (- 4)"
    using fmul_exact[of 1 2] fmul_exact[of "- 2" 2] representable_of_int[of 2]
      representable_of_int[of "- 4"] by simp_all
  have b: "build_1d_operator ideal_platform 4 (Finite 3) (Finite 2) =
      and_then (py_pow2 ideal_platform 1) (\<lambda>dx2. and_then (py_div (Finite 2) dx2) (\<lambda>c.
        Inr (operator_of (nat 4) c)))"
    by (rule build_ideal[OF _ _ float_of_int_3 dx]) simp_all
  show ?thesis
    unfolding b using p c m
    by (simp add: and_then_def operator_of_def stencil_def upt_rec eval_nat_numeral)
qed

subsection \<open>The reporting loop\<close>

lemma print_modes_props:
  assumes "m \<in> set (print_modes i vals)"
  shows "i \<le> index m \<and> index m < i + length vals \<and>
         sigma_r m = Re (vals ! (index m - i)) \<and> freq m = Im (vals ! (index m - i)) \<and>
         1 / 10000 < \<bar>sigma_r m - 1\<bar> \<and>
         status m = (if sigma_r m < 0 then STABLE else UNSTABLE)"
  using assms
proof (induction vals arbitrary: i)
  case Nil
  then show ?case by simp
next
  case (Cons ev evs)
  show ?case
  proof (cases "m \<in> set (print_modes (Suc i) evs)")
    case True
    from Cons.IH[OF True] show ?thesis
      by (auto simp: Suc_diff_le)
  next
    case False
    with Cons.prems show ?thesis
      by (auto split: if_splits)
  qed
qed


subsection \<open>Convergence failure\<close>

text \<open>
  Claim C1, as the code has it. When \<^verbatim>\<open>eigs\<close> raises (a failure to converge
  included), \<^verbatim>\<open>run_arnoldi_solver\<close> catches the exception, prints one line with the
  exception's message and returns \<^verbatim>\<open>None\<close>: no exception reaches the caller, the
  line carries neither N nor nu, and the main block reports no mode for \<^verbatim>\<open>None\<close>.
\<close>

theorem run_arnoldi_solver_failure_returns_None:
  assumes "eigs (operator s) k = Inl e"
  shows "run_arnoldi_solver eigs k s =
           (Inr None, s\<lparr>stdout := stdout s @ [Starting k, Failed e]\<rparr>) \<and>
         report_spectrum None = []"
  using assms by (simp add: run_arnoldi_solver_def report_spectrum_def)

text \<open>An instance: a solver that never converges, on the operator for \<open>N = 3\<close>.\<close>

theorem run_arnoldi_solver_failure_returns_None_witness:
  "(\<lambda>A k. Inl (SolverError ''ARPACK error -1: No convergence''))
      (operator \<lparr>operator = [[1, 0, 0], [Finite 4, Finite (- 8), Finite 4], [0, 0, 1]],
          stdout = []\<rparr>) (4::int)
     = (Inl (SolverError ''ARPACK error -1: No convergence'')
          :: error + complex list \<times> complex list list) \<and>
   run_arnoldi_solver (\<lambda>A k. Inl (SolverError ''ARPACK error -1: No convergence'')) 4
       \<lparr>operator = [[1, 0, 0], [Finite 4, Finite (- 8), Finite 4], [0, 0, 1]],
          stdout = []\<rparr>
     = (Inr None,
        \<lparr>operator = [[1, 0, 0], [Finite 4, Finite (- 8), Finite 4], [0, 0, 1]],
         stdout = [Starting 4, Failed (SolverError ''ARPACK error -1: No convergence'')]\<rparr>) \<and>
   report_spectrum None = []"
  using run_arnoldi_solver_failure_returns_None
    [of "\<lambda>A k. Inl (SolverError ''ARPACK error -1: No convergence'')"
        "\<lparr>operator = [[1, 0, 0], [Finite 4, Finite (- 8), Finite 4], [0, 0, 1]],
          stdout = []\<rparr>" 4
        "SolverError ''ARPACK error -1: No convergence''"]
  by simp

text \<open>
  Claim C1 as stated fails: for a solver that does not converge the call returns
  \<^verbatim>\<open>None\<close> in place of a raised error.
\<close>

theorem convergence_failure_not_raised:
  "fst (run_arnoldi_solver (\<lambda>A k. Inl (SolverError ''ARPACK error -1: No convergence''))
         4 \<lparr>operator = [[1, 0, 0], [Finite 4, Finite (- 8), Finite 4], [0, 0, 1]],
          stdout = []\<rparr>) = Inr None"
  by (simp add: run_arnoldi_solver_def)

subsection \<open>Grid parameters\<close>

text \<open>
  Claim C2, as the code has it. \<^verbatim>\<open>build_1d_operator\<close> validates nothing and knows no
  \<^verbatim>\<open>InvalidGridError\<close>. It raises \<^verbatim>\<open>ZeroDivisionError\<close> for \<open>N = 1\<close>, and it
  raises for every \<open>N \<le> 0\<close> and for \<open>L = 0\<close>. For \<open>N \<ge> 2\<close> it returns exactly when
  numpy accepts the sizes \<open>N\<close> and \<open>N - 1\<close> and the four scalar steps succeed: the
  conversion of \<open>N - 1\<close>, \<^verbatim>\<open>dx = L / (N - 1)\<close>, \<^verbatim>\<open>dx**2\<close> and \<^verbatim>\<open>nu / dx**2\<close>. An
  error of \<^verbatim>\<open>dx**2\<close> (its overflow) is the error of the call, and a \<^verbatim>\<open>dx**2\<close> that
  is zero, also by underflow, makes the call raise \<^verbatim>\<open>ZeroDivisionError\<close>. What is
  returned is an \<open>N\<close> by \<open>N\<close> matrix with \<open>N \<ge> 2\<close>.
\<close>

theorem build_1d_operator_outcome:
  "(N = 1 \<longrightarrow> build_1d_operator P N L nu = Inl ZeroDivisionError) \<and>
   (N \<le> 0 \<or> L = 0 \<longrightarrow> (\<exists>e. build_1d_operator P N L nu = Inl e)) \<and>
   (2 \<le> N \<longrightarrow>
      ((\<exists>A. build_1d_operator P N L nu = Inr A) \<longleftrightarrow>
       (\<exists>N1 dx dx2 c.
          np_refuses P N = None \<and> np_refuses P (N - 1) = None \<and>
          float_of_int (N - 1) = Inr N1 \<and> py_div L N1 = Inr dx \<and>
          py_pow2 P dx = Inr dx2 \<and> py_div nu dx2 = Inr c))) \<and>
   (\<forall>N1 dx.
      2 \<le> N \<and> np_refuses P N = None \<and> np_refuses P (N - 1) = None \<and>
      float_of_int (N - 1) = Inr N1 \<and> py_div L N1 = Inr dx \<longrightarrow>
        (\<forall>e. py_pow2 P dx = Inl e \<longrightarrow> build_1d_operator P N L nu = Inl e) \<and>
        (py_pow2 P dx = Inr 0 \<longrightarrow> build_1d_operator P N L nu = Inl ZeroDivisionError)) \<and>
   (\<forall>A. build_1d_operator P N L nu = Inr A \<longrightarrow> 2 \<le> N \<and> square (nat N) A)"
proof (intro conjI impI allI)
  assume "N = 1"
  then show "build_1d_operator P N L nu = Inl ZeroDivisionError"
    by (simp add: build_1d_operator_N1)
next
  assume "N \<le> 0 \<or> L = 0"
  then have "\<not> (\<exists>A. build_1d_operator P N L nu = Inr A)"
    using build_1d_operator_Inr_ge2[of P N L nu] build_1d_operator_L0[of P N nu] by force
  then show "\<exists>e. build_1d_operator P N L nu = Inl e"
    by (cases "build_1d_operator P N L nu") auto
next
  assume N: "2 \<le> N"
  show "(\<exists>A. build_1d_operator P N L nu = Inr A) \<longleftrightarrow>
       (\<exists>N1 dx dx2 c.
          np_refuses P N = None \<and> np_refuses P (N - 1) = None \<and>
          float_of_int (N - 1) = Inr N1 \<and> py_div L N1 = Inr dx \<and>
          py_pow2 P dx = Inr dx2 \<and> py_div nu dx2 = Inr c)"
    unfolding build_1d_operator_Inr[OF N] by blast
next
  fix N1 dx e
  assume a: "2 \<le> N \<and> np_refuses P N = None \<and> np_refuses P (N - 1) = None \<and>
      float_of_int (N - 1) = Inr N1 \<and> py_div L N1 = Inr dx" and "py_pow2 P dx = Inl e"
  then show "build_1d_operator P N L nu = Inl e"
    by (simp add: build_1d_operator_steps[of N P N1 L dx] and_then_def)
next
  fix N1 dx
  assume a: "2 \<le> N \<and> np_refuses P N = None \<and> np_refuses P (N - 1) = None \<and>
      float_of_int (N - 1) = Inr N1 \<and> py_div L N1 = Inr dx" and "py_pow2 P dx = Inr 0"
  then show "build_1d_operator P N L nu = Inl ZeroDivisionError"
    by (simp add: build_1d_operator_steps[of N P N1 L dx] and_then_def py_div_def)
next
  fix A assume a: "build_1d_operator P N L nu = Inr A"
  then show "2 \<le> N" by (rule build_1d_operator_Inr_ge2)
  then have n: "2 \<le> nat N" by simp
  from a \<open>2 \<le> N\<close> obtain c where "A = operator_of (nat N) c"
    unfolding build_1d_operator_Inr[OF \<open>2 \<le> N\<close>] operator_of_def by blast
  then show "square (nat N) A"
    using n by (auto simp: operator_of_def square_def list_all_length nth_list_update)
qed

text \<open>
  Instances on the reference platform: one point, no point, a domain of length zero,
  a negative length (accepted), a length whose square overflows and a length whose
  square underflows to zero.
\<close>

theorem build_1d_operator_outcome_witness:
  "build_1d_operator ideal_platform 1 1 1 = Inl ZeroDivisionError \<and>
   (\<exists>e. build_1d_operator ideal_platform 0 1 1 = Inl e) \<and>
   (\<exists>e. build_1d_operator ideal_platform 3 0 1 = Inl e) \<and>
   (\<exists>A. build_1d_operator ideal_platform 3 (Finite (- 1)) 1 = Inr A) \<and>
   build_1d_operator ideal_platform 3 (Finite (2 ^ 600)) 1 = Inl OverflowError \<and>
   build_1d_operator ideal_platform 3 (Finite (1 / 2 ^ 600)) 1 = Inl ZeroDivisionError"
proof -
  have np: "np_refuses ideal_platform 3 = None" "np_refuses ideal_platform (3 - 1) = None"
    by (simp_all add: ideal_platform_simps)
  have three: "(2::int) \<le> 3" by simp
  from build_1d_operator_outcome[of 1 ideal_platform 1 1]
  have c1: "build_1d_operator ideal_platform 1 1 1 = Inl ZeroDivisionError" by blast
  from build_1d_operator_outcome[of 0 ideal_platform 1 1]
  have c2: "\<exists>e. build_1d_operator ideal_platform 0 1 1 = Inl e" by simp
  from build_1d_operator_outcome[of 3 ideal_platform 0 1]
  have c3: "\<exists>e. build_1d_operator ideal_platform 3 0 1 = Inl e" by blast
  from build_1d_operator_outcome[of 3 ideal_platform "Finite (- 1)" 1] three np
    float_of_int_2 steps_negative_L
  have c4: "\<exists>A. build_1d_operator ideal_platform 3 (Finite (- 1)) 1 = Inr A" by blast
  from build_1d_operator_outcome[of 3 ideal_platform "Finite (2 ^ 600)" 1] three np
    float_of_int_2 steps_huge_L
  have c5: "build_1d_operator ideal_platform 3 (Finite (2 ^ 600)) 1 = Inl OverflowError"
    by blast
  from build_1d_operator_outcome[of 3 ideal_platform "Finite (1 / 2 ^ 600)" 1] three np
    float_of_int_2 steps_tiny_L
  have c6: "build_1d_operator ideal_platform 3 (Finite (1 / 2 ^ 600)) 1 = Inl ZeroDivisionError"
    by blast
  from c1 c2 c3 c4 c5 c6 show ?thesis by blast
qed

text \<open>
  Claim C2 as stated fails: \<open>N = 2\<close> is below three and a negative \<open>L\<close> is not
  positive, and both calls return an operator.
\<close>

theorem build_1d_operator_accepts_small_grid:
  "build_1d_operator ideal_platform 2 1 1 = Inr [[1, 0], [0, 1]] \<and>
   build_1d_operator ideal_platform 3 (Finite (- 1)) 1 =
     Inr [[1, 0, 0], [Finite 4, Finite (- 8), Finite 4], [0, 0, 1]]"
  by (intro conjI build_ideal_identity build_ideal_negative_L)

subsection \<open>The reported spectrum\<close>




text \<open>
  Claim C6. For every mode that the main block reports, the growth rate is the real
  part of the eigenvalue at that position, and its sign alone decides the label:
  a negative growth rate gives \<open>STABLE\<close>, a growth rate of zero or more gives
  \<open>UNSTABLE\<close>.
\<close>

theorem status_by_sign_of_growth_rate:
  assumes "m \<in> set (report_spectrum (Some vals))"
  shows "index m < length vals \<and> sigma_r m = Re (vals ! index m) \<and>
         (sigma_r m < 0 \<longrightarrow> status m = STABLE) \<and>
         (0 \<le> sigma_r m \<longrightarrow> status m = UNSTABLE)"
  using print_modes_props[of m 0 vals] assms
  by (simp add: report_spectrum_def)

text \<open>An instance: a decaying mode and a neutral mode, whose growth rate is zero.\<close>

theorem status_by_sign_of_growth_rate_witness:
  "report_spectrum (Some [Complex (- 1 / 100) 3, Complex 0 2]) ! 0
     \<in> set (report_spectrum (Some [Complex (- 1 / 100) 3, Complex 0 2])) \<and>
   sigma_r (report_spectrum (Some [Complex (- 1 / 100) 3, Complex 0 2]) ! 0) < 0 \<and>
   status (report_spectrum (Some [Complex (- 1 / 100) 3, Complex 0 2]) ! 0) = STABLE \<and>
   report_spectrum (Some [Complex (- 1 / 100) 3, Complex 0 2]) ! 1
     \<in> set (report_spectrum (Some [Complex (- 1 / 100) 3, Complex 0 2])) \<and>
   0 \<le> sigma_r (report_spectrum (Some [Complex (- 1 / 100) 3, Complex 0 2]) ! 1) \<and>
   status (report_spectrum (Some [Complex (- 1 / 100) 3, Complex 0 2]) ! 1) = UNSTABLE"
  (is "?M0 \<and> ?S0 \<and> ?L0 \<and> ?M1 \<and> ?S1 \<and> ?L1")
proof -
  have m0: ?M0 and m1: ?M1 by (simp_all add: report_spectrum_def)
  have s0: ?S0 and s1: ?S1 by (simp_all add: report_spectrum_def)
  from status_by_sign_of_growth_rate[OF m0] s0 have l0: ?L0 by blast
  from status_by_sign_of_growth_rate[OF m1] s1 have l1: ?L1 by blast
  from m0 s0 l0 m1 s1 l1 show ?thesis by blast
qed

subsection \<open>Boundary rows\<close>

text \<open>
  Claim C4. For every \<open>N \<ge> 2\<close> and every \<open>N\<close> by \<open>N\<close> matrix, whatever its content,
  the boundary block succeeds and leaves an \<open>N\<close> by \<open>N\<close> matrix whose row \<open>0\<close> is
  \<open>[1, 0, \<dots>, 0]\<close> and whose row \<open>N - 1\<close> is \<open>[0, \<dots>, 0, 1]\<close>.
\<close>

theorem apply_dirichlet_unit_rows:
  assumes "square n A" "2 \<le> n"
  shows "\<exists>B. apply_dirichlet A = Inr B \<and> square n B \<and>
             B ! 0 = 1 # replicate (n - 1) 0 \<and>
             B ! (n - 1) = replicate (n - 1) 0 @ [1]"
proof -
  let ?B = "A[0 := 1 # replicate (n - 1) 0, n - 1 := replicate (n - 1) 0 @ [1]]"
  from assms have len: "length A = n" and rows: "\<forall>i<n. length (A ! i) = n"
    by (auto simp: square_def list_all_length)
  have "apply_dirichlet A = Inr ?B"
    by (rule apply_dirichlet_square[OF assms])
  moreover have "square n ?B"
    using assms(2) len rows by (auto simp: square_def list_all_length nth_list_update)
  moreover have "?B ! 0 = 1 # replicate (n - 1) 0"
    using assms(2) len by (simp add: nth_list_update)
  moreover have "?B ! (n - 1) = replicate (n - 1) 0 @ [1]"
    using assms(2) len by simp
  ultimately show ?thesis by blast
qed

text \<open>An instance: a full 3 by 3 matrix.\<close>

theorem apply_dirichlet_unit_rows_witness:
  "square 3 [[Finite 5, Finite 6, Finite 7], [Finite 1, Finite 2, Finite 3],
      [Finite 8, Finite 9, Finite 4]] \<and> (2::nat) \<le> 3 \<and>
   (\<exists>B. apply_dirichlet [[Finite 5, Finite 6, Finite 7], [Finite 1, Finite 2, Finite 3],
      [Finite 8, Finite 9, Finite 4]] = Inr B \<and> square 3 B \<and>
        B ! 0 = 1 # replicate (3 - 1) 0 \<and> B ! (3 - 1) = replicate (3 - 1) 0 @ [1])"
proof -
  have h1: "square 3 [[Finite 5, Finite 6, Finite 7], [Finite 1, Finite 2, Finite 3],
      [Finite 8, Finite 9, Finite 4]]" by (simp add: square_def)
  have h2: "(2::nat) \<le> 3" by simp
  from apply_dirichlet_unit_rows[OF h1 h2] h1 h2 show ?thesis by blast
qed

text \<open>
  Claim C7. The boundary block is idempotent: on a matrix that it has produced, a
  second application succeeds and returns that matrix unchanged.
\<close>

theorem apply_dirichlet_idempotent:
  assumes "apply_dirichlet A = Inr B"
  shows "apply_dirichlet B = Inr B"
proof -
  let ?r0 = "(replicate (length (A ! 0)) (0::double))[0 := 1]"
  let ?A1 = "A[0 := ?r0]"
  let ?k = "length A - 1"
  let ?rl = "(replicate (length (?A1 ! ?k)) (0::double))[length (?A1 ! ?k) - 1 := 1]"
  from assms have A: "A \<noteq> []" "A ! 0 \<noteq> []" "length A = 1 \<or> A ! ?k \<noteq> []"
    and B: "B = ?A1[?k := ?rl]"
    unfolding apply_dirichlet_Inr by blast+
  show ?thesis
  proof (cases "length A = 1")
    case True
    with A B show ?thesis
      by (subst apply_dirichlet_Inr) (auto simp: )
  next
    case False
    with A B show ?thesis
      by (subst apply_dirichlet_Inr) (auto simp: nth_list_update list_update_swap)
  qed
qed

text \<open>An instance: a full 3 by 3 matrix, enforced once and then again.\<close>

theorem apply_dirichlet_idempotent_witness:
  "apply_dirichlet [[Finite 5, Finite 6, Finite 7], [Finite 1, Finite 2, Finite 3],
      [Finite 8, Finite 9, Finite 4]] = Inr [[1, 0, 0], [Finite 1, Finite 2, Finite 3], [0, 0, 1]] \<and>
   apply_dirichlet [[1, 0, 0], [Finite 1, Finite 2, Finite 3], [0, 0, 1]] = Inr [[1, 0, 0], [Finite 1, Finite 2, Finite 3], [0, 0, 1]]"
proof -
  have h: "apply_dirichlet [[Finite 5, Finite 6, Finite 7], [Finite 1, Finite 2, Finite 3],
      [Finite 8, Finite 9, Finite 4]]
      = Inr [[1, 0, 0], [Finite 1, Finite 2, Finite 3], [0, 0, 1]]"
    by (simp add: apply_dirichlet_def set_row_def set_entry_def and_then_def py_index_def)
  from apply_dirichlet_idempotent[OF h] h show ?thesis by blast
qed

subsection \<open>The interior stencil\<close>

text \<open>
  Claim C5, as the code has it. Whenever \<^verbatim>\<open>build_1d_operator\<close> returns for
  \<open>N \<ge> 3\<close>, with \<open>dx\<close> the double \<^verbatim>\<open>L / (N - 1)\<close> and \<open>c\<close> the double
  \<^verbatim>\<open>nu / dx**2\<close> as the code computes them, the result is \<open>N\<close> by \<open>N\<close> and its rows
  \<open>1\<close> to \<open>N - 2\<close> hold the double product \<^verbatim>\<open>-2.0 * c\<close> on the main diagonal, the
  double product \<^verbatim>\<open>1.0 * c\<close> on the two adjacent diagonals and zero elsewhere. When
  \<open>c\<close> is finite and twice its magnitude is below \<^verbatim>\<open>2^1024\<close>, these entries are
  exactly \<open>- 2 c\<close>, \<open>c\<close> and \<open>c\<close>, and each of these rows sums to zero.
\<close>

theorem build_1d_operator_interior_stencil:
  assumes "3 \<le> N" "build_1d_operator P N L nu = Inr A"
  shows "\<exists>N1 dx dx2 c.
     float_of_int (N - 1) = Inr N1 \<and> py_div L N1 = Inr dx \<and>
     py_pow2 P dx = Inr dx2 \<and> py_div nu dx2 = Inr c \<and>
     square (nat N) A \<and>
     (\<forall>i j. 1 \<le> i \<and> i \<le> nat N - 2 \<and> j < nat N \<longrightarrow>
        A ! i ! j = (if j = i then fmul (Finite (- 2)) c
                     else if j + 1 = i \<or> j = i + 1 then fmul (Finite 1) c
                     else 0)) \<and>
     (\<forall>v. c = Finite v \<and> \<bar>v\<bar> * 2 < 2 ^ 1024 \<longrightarrow>
        (\<forall>i. 1 \<le> i \<and> i \<le> nat N - 2 \<longrightarrow>
           A ! i = map (\<lambda>j. Finite (if j = i then - 2 * v
                                      else if j + 1 = i \<or> j = i + 1 then v else 0))
                     [0..<nat N] \<and>
           sum_list (map (\<lambda>j. if j = i then - 2 * v
                               else if j + 1 = i \<or> j = i + 1 then v else 0)
                     [0..<nat N]) = 0))"
proof -
  define n where "n = nat N"
  have n: "3 \<le> n" using assms(1) by (simp add: n_def)
  from assms(1) have N2: "2 \<le> N" by simp
  from assms(2) obtain N1 dx dx2 c where
    steps: "float_of_int (N - 1) = Inr N1" "py_div L N1 = Inr dx"
      "py_pow2 P dx = Inr dx2" "py_div nu dx2 = Inr c"
    and A: "A = operator_of n c"
    unfolding build_1d_operator_Inr[OF N2] operator_of_def n_def by blast
  have sq: "square n A"
    using n by (auto simp: A operator_of_def square_def list_all_length nth_list_update)
  have ent: "A ! i ! j = (if j = i then fmul (Finite (- 2)) c
                     else if j + 1 = i \<or> j = i + 1 then fmul (Finite 1) c
                     else 0)"
    if "1 \<le> i \<and> i \<le> n - 2 \<and> j < n" for i j
    using that n by (auto simp add: A operator_of_nth stencil_def)
  have exact: "A ! i = map (\<lambda>j. Finite (if j = i then - 2 * v
                                      else if j + 1 = i \<or> j = i + 1 then v else 0)) [0..<n] \<and>
      sum_list (map (\<lambda>j. if j = i then - 2 * v
                          else if j + 1 = i \<or> j = i + 1 then v else 0) [0..<n]) = 0"
    if c: "c = Finite v \<and> \<bar>v\<bar> * 2 < 2 ^ 1024" and i: "1 \<le> i \<and> i \<le> n - 2" for v i
  proof -
    from c steps(4) have rep: "representable v"
      by (auto dest: py_div_representable)
    have one: "fmul (Finite 1) (Finite v) = Finite v"
      using py_div_fmul_one[OF steps(4)] c by simp
    have two: "fmul (Finite (- 2)) (Finite v) = Finite (- 2 * v)"
      using rep c by (intro fmul_minus_two) simp_all
    have st: "stencil c i j = Finite (if j = i then - 2 * v
                                  else if j + 1 = i \<or> j = i + 1 then v else 0)" for j
      using c by (simp add: stencil_def one two zero_double_def del: power_numeral)
    have "1 \<le> i" "i + 1 < n" using i n by arith+
    then have "A ! i = map (\<lambda>j. Finite (if j = i then - 2 * v
                                      else if j + 1 = i \<or> j = i + 1 then v else 0)) [0..<n]"
      unfolding A by (simp add: operator_of_row st[abs_def] del: power_numeral)
    moreover have "sum_list (map (\<lambda>j. if j = i then - 2 * v
                          else if j + 1 = i \<or> j = i + 1 then v else 0) [0..<n]) = 0"
      using \<open>1 \<le> i\<close> \<open>i + 1 < n\<close> by (rule sum_exact_stencil)
    ultimately show ?thesis by blast
  qed
  from steps sq ent exact show ?thesis
    unfolding n_def by blast
qed

text \<open>An instance: four points on a domain of length three, so that \<open>dx = 1\<close> and \<open>c = 2\<close>.\<close>

theorem build_1d_operator_interior_stencil_witness:
  "(3::int) \<le> 4 \<and>
   build_1d_operator ideal_platform 4 (Finite 3) (Finite 2) =
     Inr [[1, 0, 0, 0], [Finite 2, Finite (- 4), Finite 2, 0],
          [0, Finite 2, Finite (- 4), Finite 2], [0, 0, 0, 1]] \<and>
   (\<exists>N1 dx dx2 c.
     float_of_int (4 - 1) = Inr N1 \<and> py_div (Finite 3) N1 = Inr dx \<and>
     py_pow2 ideal_platform dx = Inr dx2 \<and> py_div (Finite 2) dx2 = Inr c \<and>
     square (nat 4) [[1, 0, 0, 0], [Finite 2, Finite (- 4), Finite 2, 0],
          [0, Finite 2, Finite (- 4), Finite 2], [0, 0, 0, 1]] \<and>
     (\<forall>i j. 1 \<le> i \<and> i \<le> nat 4 - 2 \<and> j < nat 4 \<longrightarrow>
        [[1, 0, 0, 0], [Finite 2, Finite (- 4), Finite 2, 0],
          [0, Finite 2, Finite (- 4), Finite 2], [0, 0, 0, 1]] ! i ! j =
          (if j = i then fmul (Finite (- 2)) c
           else if j + 1 = i \<or> j = i + 1 then fmul (Finite 1) c
           else 0)) \<and>
     (\<forall>v. c = Finite v \<and> \<bar>v\<bar> * 2 < 2 ^ 1024 \<longrightarrow>
        (\<forall>i. 1 \<le> i \<and> i \<le> nat 4 - 2 \<longrightarrow>
           [[1, 0, 0, 0], [Finite 2, Finite (- 4), Finite 2, 0],
            [0, Finite 2, Finite (- 4), Finite 2], [0, 0, 0, 1]] ! i =
             map (\<lambda>j. Finite (if j = i then - 2 * v
                                else if j + 1 = i \<or> j = i + 1 then v else 0))
                 [0..<nat 4] \<and>
           sum_list (map (\<lambda>j. if j = i then - 2 * v
                               else if j + 1 = i \<or> j = i + 1 then v else 0)
                     [0..<nat 4]) = 0)))"
  (is "?H1 \<and> ?H2 \<and> ?C")
proof -
  have h1: ?H1 by simp
  have h2: ?H2 by (rule build_ideal_4)
  have ?C by (rule build_1d_operator_interior_stencil[OF h1 h2])
  with h1 h2 show ?thesis by blast
qed

text \<open>
  Claim C5 as stated fails. For \<open>N = 3\<close>, \<^verbatim>\<open>L = 2.0**-600\<close> and \<open>nu = 1\<close> the square
  of \<open>dx\<close> underflows to zero and the call raises; for \<open>L = 2\<close> and
  \<^verbatim>\<open>nu = 2.0**1023\<close> the diagonal entry of the interior row is minus infinity, so
  that the row does not sum to zero.
\<close>

theorem build_1d_operator_raises_or_overflows:
  "build_1d_operator ideal_platform 3 (Finite (1 / 2 ^ 600)) 1 = Inl ZeroDivisionError \<and>
   build_1d_operator ideal_platform 3 (Finite 2) (Finite (2 ^ 1023)) =
     Inr [[1, 0, 0], [Finite (2 ^ 1023), NegInf, Finite (2 ^ 1023)], [0, 0, 1]]"
  by (intro conjI build_ideal_underflow build_ideal_infinite_entry)




end
